theory Spec2Isabelle
  imports Main "HOL-Library.Multiset"
begin

section \<open>MahjongKit: data model\<close>

text \<open>
  A tile is a Python integer in the 34-form (0-8 man, 9-17 pin, 18-26 suo, 27-33
  characters); a group (meld) is a list of tiles and a decomposition a list of groups.
  Exceptions of the source are values of \<open>py_error\<close>; a function that can raise
  returns \<open>py_error + 'a\<close> with \<open>Inl\<close> for the exception.
\<close>

type_synonym tile = int
type_synonym meld = "int list"
type_synonym decomposition = "int list list"

datatype py_error = ValueError | IndexError | TypeError

text \<open>Class attributes of \<open>Tile\<close> (src/MahjongKit.py, lines 92-96).\<close>

definition WINDS :: "int list" where
  "WINDS = [27, 28, 29, 30]"

definition THREES :: "int list" where
  "THREES = [31, 32, 33]"

definition HONORS :: "int list" where
  "HONORS = [27, 28, 29, 30, 31, 32, 33]"

definition TERMINALS :: "int list" where
  "TERMINALS = [0, 8, 9, 17, 18, 26]"

definition ONENINE :: "int list" where
  "ONENINE = [0, 8, 9, 17, 18, 26, 27, 28, 29, 30, 31, 32, 33]"

definition GREENS :: "int list" where
  "GREENS = [19, 20, 21, 23, 25, 32]"

text \<open>
  \<open>set(xs)\<close> followed by iteration: the distinct elements of \<open>xs\<close>. Python leaves the
  iteration order of a set open; the model fixes the order of \<open>remdups\<close>.
\<close>

definition py_set :: "'a list \<Rightarrow> 'a list" where
  "py_set xs = remdups xs"

section \<open>Partition.shantin_seven_pairs\<close>

text \<open>
  Lines 609-625:
  \<^verbatim>\<open>
  if len(called_melds) > 0:
      return 10
  else:
      num_pair = len([tile for tile in set(tiles34) if tiles34.count(tile) >= 2])
      return 6 - num_pair
  \<close>
\<close>

definition shantin_seven_pairs :: "int list \<Rightarrow> int list list \<Rightarrow> int" where
  "shantin_seven_pairs tiles34 called_melds =
     (if length called_melds > 0 then 10
      else (let num_pair = length (filter (\<lambda>t. count_list tiles34 t \<ge> 2) (py_set tiles34))
            in 6 - int num_pair))"

section \<open>WinWaitCal.score_calculation_base\<close>

text \<open>
  The second component of the returned pair is a description string built from fixed
  (non-ASCII) texts and formatted numbers. The model keeps what the string is built
  from: the limit tier with the dealer and self-draw flags that select the fixed text,
  or the numbers passed to \<open>format\<close>.
\<close>

datatype limit = Mangan | Haneman | Baiman | Sanbaiman | Yakuman

datatype base_desc =
    EmptyDesc
  | LimitDesc limit bool bool
  | FuHanAllDesc int int int
  | FuHanSplitDesc int int int int
  | FuHanRonDesc int int int

text \<open>
  Lines 771-815. \<open>2 ** (han + 2)\<close> is an integer power for \<open>han \<ge> -2\<close>; for a smaller
  \<open>han\<close> Python computes a float, which the model does not cover (the exponent is
  cut at 0 there), and no caller passes such a value.
\<close>

definition limit_score :: "limit \<Rightarrow> bool \<Rightarrow> int" where
  "limit_score l is_dealer =
     (case l of
        Mangan \<Rightarrow> (if is_dealer then 12000 else 8000)
      | Haneman \<Rightarrow> (if is_dealer then 18000 else 12000)
      | Baiman \<Rightarrow> (if is_dealer then 24000 else 16000)
      | Sanbaiman \<Rightarrow> (if is_dealer then 36000 else 24000)
      | Yakuman \<Rightarrow> (if is_dealer then 48000 else 32000))"

definition score_calculation_base :: "int \<Rightarrow> int \<Rightarrow> bool \<Rightarrow> bool \<Rightarrow> int \<times> base_desc" where
  "score_calculation_base han fu is_dealer is_zimo =
     (if han = 0 then (0, EmptyDesc)
      else if han < 5 then
        (if (fu \<ge> 40 \<and> han \<ge> 4) \<or> (fu \<ge> 70 \<and> han \<ge> 3)
         then (limit_score Mangan is_dealer, LimitDesc Mangan is_dealer is_zimo)
         else
           (let base_score = fu * (2 ^ nat (han + 2)) in
            if is_zimo then
              (if is_dealer then
                 (let each = ((base_score * 2 - 1) div 100 + 1) * 100
                  in (each * 3, FuHanAllDesc fu han each))
               else
                 (let dscore = ((base_score * 2 - 1) div 100 + 1) * 100;
                      xscore = ((base_score - 1) div 100 + 1) * 100
                  in (dscore + 2 * xscore, FuHanSplitDesc fu han xscore dscore)))
            else
              (let score = (if is_dealer then ((base_score * 6 - 1) div 100 + 1) * 100
                            else ((base_score * 4 - 1) div 100 + 1) * 100)
               in (score, FuHanRonDesc fu han score))))
      else if han = 5 then (limit_score Mangan is_dealer, LimitDesc Mangan is_dealer is_zimo)
      else if 6 \<le> han \<and> han \<le> 7 then (limit_score Haneman is_dealer, LimitDesc Haneman is_dealer is_zimo)
      else if 8 \<le> han \<and> han \<le> 10 then (limit_score Baiman is_dealer, LimitDesc Baiman is_dealer is_zimo)
      else if 11 \<le> han \<and> han \<le> 12 then (limit_score Sanbaiman is_dealer, LimitDesc Sanbaiman is_dealer is_zimo)
      else (limit_score Yakuman is_dealer, LimitDesc Yakuman is_dealer is_zimo))"

text \<open>
  The specification's rounding, in its own words: \<open>x\<close> rounded up to the next multiple
  of 100 (a multiple of 100 stays as it is).
\<close>

definition round_up_100 :: "int \<Rightarrow> int" where
  "round_up_100 x = (if x mod 100 = 0 then x else x - x mod 100 + 100)"

section \<open>Properties\<close>

subsection \<open>Rounding\<close>

lemma round_up_100_multiple: "round_up_100 x mod 100 = 0"
proof -
  have "(x - x mod 100 + 100) mod 100 = 0"
    by (simp add: minus_mod_eq_mult_div)
  then show ?thesis unfolding round_up_100_def by simp
qed

lemma round_up_100_bounds: "x \<le> round_up_100 x \<and> round_up_100 x < x + 100"
proof -
  have "0 \<le> x mod 100" "x mod 100 < 100" by simp_all
  then show ?thesis unfolding round_up_100_def by auto
qed

lemma round_up_100_least:
  assumes "y mod 100 = 0" and "x \<le> y" shows "round_up_100 x \<le> y"
proof (cases "x mod 100 = 0")
  case True then show ?thesis using assms by (simp add: round_up_100_def)
next
  case False
  obtain k where k: "y = 100 * k" using assms(1) by (metis mod_eq_0_iff_dvd dvd_def)
  have x: "x = 100 * (x div 100) + x mod 100" by simp
  have r: "0 < x mod 100" "x mod 100 < 100" using False
    by (simp_all add: le_less)
  have "x div 100 < k" using x r assms(2) k by linarith
  then have "100 * (x div 100) + 100 \<le> 100 * k" by linarith
  moreover have "round_up_100 x = 100 * (x div 100) + 100"
    using False by (simp add: round_up_100_def minus_mod_eq_mult_div)
  ultimately show ?thesis using k by simp
qed

lemma source_rounding: "((x - 1) div 100 + 1) * 100 = round_up_100 x"
proof (cases "x mod 100 = 0")
  case True
  then obtain k where k: "x = 100 * k" by (metis mod_eq_0_iff_dvd dvd_def)
  have "(100 * k - 1) div 100 = k - 1"
    by (rule div_pos_pos_trivial [THEN subst, of "99" "100"]) (simp_all add: div_eq_minus1 zdiv_zminus1_eq_if)
  then show ?thesis using True k by (simp add: round_up_100_def)
next
  case False
  have r: "0 < x mod 100" "x mod 100 < 100" using False
    by (simp_all add: le_less)
  have "(x - 1) div 100 = x div 100"
  proof -
    have e: "x - 1 = (x mod 100 - 1) + (x div 100) * 100" by simp
    have "(x - 1) div 100 = ((x mod 100 - 1) + (x div 100) * 100) div 100"
      by (rule arg_cong [OF e])
    also have "\<dots> = x div 100 + (x mod 100 - 1) div 100"
      by (rule div_mult_self1) simp
    also have "(x mod 100 - 1) div 100 = 0"
      using r by (intro div_pos_pos_trivial) simp_all
    finally show ?thesis by simp
  qed
  then show ?thesis using False by (simp add: round_up_100_def minus_mod_eq_mult_div algebra_simps)
qed

subsection \<open>Seven pairs shanten\<close>

lemma py_set_filter_card:
  "length (filter P (py_set xs)) = card {t \<in> set xs. P t}"
proof -
  have "distinct (filter P (py_set xs))"
    by (simp add: py_set_def)
  moreover have "set (filter P (py_set xs)) = {t \<in> set xs. P t}"
    by (auto simp: py_set_def)
  ultimately show ?thesis
    using distinct_card by metis
qed

lemma count_list_ge2_in_set: "count_list xs t \<ge> 2 \<Longrightarrow> t \<in> set xs"
  by (metis count_list_0_iff not_numeral_le_zero)

text \<open>
  C8. \<open>shantin_seven_pairs\<close> returns the sentinel 10 whenever at least one meld has
  been called, and otherwise 6 minus the number of distinct tile values that occur at
  least twice in the hand.
\<close>

theorem shantin_seven_pairs_spec:
  "shantin_seven_pairs tiles34 called_melds =
     (if called_melds \<noteq> [] then 10
      else 6 - int (card {t. count_list tiles34 t \<ge> 2}))"
proof -
  have "{t \<in> set tiles34. count_list tiles34 t \<ge> 2} = {t. count_list tiles34 t \<ge> 2}"
    using count_list_ge2_in_set by fastforce
  then show ?thesis
    by (simp add: shantin_seven_pairs_def py_set_filter_card)
qed

subsection \<open>Score table below the mangan cap\<close>

text \<open>
  C7. For han in 1..4 and a fu below the mangan cap, with \<open>base = fu * 2^(han+2)\<close>:
  a non-dealer ron pays base*4 rounded up to the next 100, a dealer ron base*6 rounded
  up, a dealer self-draw three times base*2 rounded up, a non-dealer self-draw base*2
  rounded up plus twice base rounded up. In particular han 3, fu 30, non-dealer ron
  gives exactly 3900.
\<close>

lemma below_cap_guard:
  assumes "1 \<le> han" and "han \<le> 4"
    and "\<not> (fu \<ge> 40 \<and> han \<ge> 4)" and "\<not> (fu \<ge> 70 \<and> han \<ge> 3)"
  shows "score_calculation_base han fu is_dealer is_zimo =
     (let base_score = fu * (2 ^ nat (han + 2)) in
      if is_zimo then
        (if is_dealer then
           (let each = round_up_100 (base_score * 2)
            in (each * 3, FuHanAllDesc fu han each))
         else
           (let dscore = round_up_100 (base_score * 2);
                xscore = round_up_100 base_score
            in (dscore + 2 * xscore, FuHanSplitDesc fu han xscore dscore)))
      else
        (let score = (if is_dealer then round_up_100 (base_score * 6)
                      else round_up_100 (base_score * 4))
         in (score, FuHanRonDesc fu han score)))"
proof -
  have a: "han \<noteq> 0" and b: "han < 5"
    using assms by auto
  have c: "\<not> ((fu \<ge> 40 \<and> han \<ge> 4) \<or> (fu \<ge> 70 \<and> han \<ge> 3))"
    using assms by blast
  show ?thesis
    unfolding score_calculation_base_def source_rounding
    by (simp only: a b c if_False if_True)
qed

theorem score_calculation_base_below_cap:
  assumes "1 \<le> han" and "han \<le> 4"
    and "\<not> (fu \<ge> 40 \<and> han \<ge> 4)" and "\<not> (fu \<ge> 70 \<and> han \<ge> 3)"
  shows "fst (score_calculation_base han fu False False) = round_up_100 (fu * 2 ^ nat (han + 2) * 4)
    \<and> fst (score_calculation_base han fu True False) = round_up_100 (fu * 2 ^ nat (han + 2) * 6)
    \<and> fst (score_calculation_base han fu True True) = 3 * round_up_100 (fu * 2 ^ nat (han + 2) * 2)
    \<and> fst (score_calculation_base han fu False True) =
           round_up_100 (fu * 2 ^ nat (han + 2) * 2) + 2 * round_up_100 (fu * 2 ^ nat (han + 2))
    \<and> fst (score_calculation_base 3 30 False False) = 3900"
proof -
  have "fst (score_calculation_base 3 30 False False) = 3900"
    unfolding score_calculation_base_def by simp
  then show ?thesis
    unfolding below_cap_guard [OF assms] Let_def by simp
qed

theorem score_calculation_base_below_cap_witness:
  "fst (score_calculation_base 3 30 False False) = 3900
   \<and> fst (score_calculation_base 3 30 True False) = 5800
   \<and> fst (score_calculation_base 3 30 True True) = 6000
   \<and> fst (score_calculation_base 3 30 False True) = 4000"
proof -
  have r: "round_up_100 3840 = 3900" "round_up_100 5760 = 5800"
    "round_up_100 1920 = 2000" "round_up_100 960 = 1000"
    unfolding round_up_100_def by simp_all
  show ?thesis
    using score_calculation_base_below_cap [of 3 30] r by simp
qed

end
